theory Spec2Isabelle
  imports Complex_Main "HOL-Library.AList"
begin

section \<open>Job registry (services/job\_service.py)\<close>

text \<open>
  Identifiers are the values of \<^verbatim>\<open>uuid4()\<close>, timestamps the values of
  \<^verbatim>\<open>datetime.utcnow()\<close> (naive datetimes, totally ordered, counted in microseconds).
  Both are read from the environment, so every operation that reads one takes it as an
  argument.
\<close>

type_synonym uuid = nat
type_synonym datetime = int

datatype JobStatus = PENDING | RUNNING | COMPLETED | FAILED

text \<open>
  The values stored in the \<^verbatim>\<open>progress\<close> and \<^verbatim>\<open>result\<close> dictionaries
  are integers and strings; the dictionaries are keyed by strings.
\<close>

datatype pyval = PyInt int | PyStr string

type_synonym pydict = "string \<rightharpoonup> pyval"

record Job =
  job_id :: uuid
  status :: JobStatus
  created_at :: datetime
  updated_at :: datetime
  current_step :: "string option"
  progress :: pydict
  result :: "pydict option"
  error :: "string option"

text \<open>
  \<^verbatim>\<open>JobStore._jobs\<close> is a Python dict, which keeps its keys in insertion order:
  an association list, where \<^verbatim>\<open>d[k] = v\<close> replaces the value in place when the key
  is present and appends otherwise (\<^const>\<open>AList.update\<close>), \<^verbatim>\<open>d.get(k)\<close> is
  \<^const>\<open>map_of\<close>, \<^verbatim>\<open>del d[k]\<close> is \<^const>\<open>AList.delete\<close> and
  \<^verbatim>\<open>d.values()\<close> is \<^term>\<open>map snd\<close>. Every operation runs under the store's
  lock, so it is one atomic step on the store.
\<close>

type_synonym JobStore = "(uuid \<times> Job) list"

definition create_job :: "JobStore \<Rightarrow> uuid \<Rightarrow> datetime \<Rightarrow> datetime \<Rightarrow> JobStore \<times> Job" where
  "create_job s new_id now1 now2 =
     (let job = \<lparr>job_id = new_id, status = PENDING, created_at = now1, updated_at = now2,
                 current_step = None, progress = Map.empty, result = None, error = None\<rparr>
      in (AList.update new_id job s, job))"

definition get_job :: "JobStore \<Rightarrow> uuid \<Rightarrow> Job option" where
  "get_job s jid = map_of s jid"

definition update_job ::
  "JobStore \<Rightarrow> datetime \<Rightarrow> uuid \<Rightarrow> JobStatus option \<Rightarrow> string option \<Rightarrow> pydict option \<Rightarrow>
   pydict option \<Rightarrow> string option \<Rightarrow> JobStore \<times> Job option" where
  "update_job s now jid st cs pr rs er =
     (case map_of s jid of
        None \<Rightarrow> (s, None)
      | Some job \<Rightarrow>
          (let job1 = (case st of None \<Rightarrow> job | Some v \<Rightarrow> job\<lparr>status := v\<rparr>);
               job2 = (case cs of None \<Rightarrow> job1 | Some v \<Rightarrow> job1\<lparr>current_step := Some v\<rparr>);
               job3 = (case pr of None \<Rightarrow> job2 | Some d \<Rightarrow> job2\<lparr>progress := progress job2 ++ d\<rparr>);
               job4 = (case rs of None \<Rightarrow> job3 | Some v \<Rightarrow> job3\<lparr>result := Some v\<rparr>);
               job5 = (case er of None \<Rightarrow> job4 | Some v \<Rightarrow> job4\<lparr>error := Some v\<rparr>);
               job6 = job5\<lparr>updated_at := now\<rparr>
           in (AList.update jid job6 s, Some job6)))"

definition delete_job :: "JobStore \<Rightarrow> uuid \<Rightarrow> JobStore \<times> bool" where
  "delete_job s jid =
     (if map_of s jid \<noteq> None then (AList.delete jid s, True) else (s, False))"

text \<open>
  \<^verbatim>\<open>sorted(xs, key=k, reverse=True)\<close> is a stable sort into descending key order:
  elements with equal keys keep their original order. CPython reverses the list, sorts it
  stably into ascending order and reverses it again.
\<close>

definition sorted_reverse :: "('a \<Rightarrow> 'k::linorder) \<Rightarrow> 'a list \<Rightarrow> 'a list" where
  "sorted_reverse k xs = rev (sort_key k (rev xs))"

text \<open>
  \<^verbatim>\<open>xs[:n]\<close>: the first \<open>n\<close> elements when \<open>n\<close> is not negative, and all but
  the last \<open>-n\<close> elements when it is.
\<close>

definition slice_to :: "'a list \<Rightarrow> int \<Rightarrow> 'a list" where
  "slice_to xs n = (if 0 \<le> n then take (nat n) xs else take (length xs - nat (- n)) xs)"

definition list_jobs :: "JobStore \<Rightarrow> int \<Rightarrow> Job list" where
  "list_jobs s limit = slice_to (sorted_reverse created_at (map snd s)) limit"

text \<open>
  A run of the system is a sequence of calls on the one global store. A call is recorded
  with the values it reads from the environment and with its arguments.
\<close>

datatype store_op =
    CreateJob uuid datetime datetime
  | UpdateJob datetime uuid "JobStatus option" "string option" "pydict option"
      "pydict option" "string option"
  | DeleteJob uuid

fun apply_op :: "JobStore \<Rightarrow> store_op \<Rightarrow> JobStore" where
  "apply_op s (CreateJob new_id now1 now2) = fst (create_job s new_id now1 now2)"
| "apply_op s (UpdateJob now jid st cs pr rs er) = fst (update_job s now jid st cs pr rs er)"
| "apply_op s (DeleteJob jid) = fst (delete_job s jid)"

definition run_ops :: "JobStore \<Rightarrow> store_op list \<Rightarrow> JobStore" where
  "run_ops s ops = foldl apply_op s ops"

fun is_update :: "store_op \<Rightarrow> bool" where
  "is_update (UpdateJob now jid st cs pr rs er) = True"
| "is_update _ = False"

section \<open>Evidence context (services/chat\_service.py)\<close>

text \<open>
  A Python float is modelled by the real number it denotes, and the comparison of floats is
  exact. The literal \<^verbatim>\<open>0.5\<close> is a binary64 value; the literal \<^verbatim>\<open>0.8\<close>
  denotes the binary64 value nearest to it, \<open>3602879701896397 / 2 ^ 52\<close>, and no
  binary64 value lies between the two (lemma \<open>literal_0_8_binary64\<close> below), so that on
  floats the comparison with the literal and with the real number agree.
\<close>

definition confidence_label :: "real \<Rightarrow> string" where
  "confidence_label confidence =
     (if confidence \<ge> 0.8 then ''[HIGH]''
      else if confidence \<ge> 0.5 then ''[MEDIUM]''
      else ''[LOW]'')"

text \<open>
  The rows read by \<^verbatim>\<open>_build_evidence_context\<close>: the images of the conversation,
  each with its detected objects and its extracted texts, in the order the queries return
  them. The confidence of a detected object is not nullable, that of an extracted text is.
\<close>

record DetectedObject =
  obj_label :: string
  obj_confidence :: real

record ExtractedText =
  text_text :: string
  text_confidence :: "real option"

record Image =
  detected_objects :: "DetectedObject list"
  extracted_texts :: "ExtractedText list"

text \<open>\<^verbatim>\<open>sep.join(xs)\<close>\<close>

fun join :: "string \<Rightarrow> string list \<Rightarrow> string" where
  "join sep [] = []"
| "join sep [x] = x"
| "join sep (x # y # ys) = x @ sep @ join sep (y # ys)"

text \<open>
  The two f-strings of the loop body; \<^verbatim>\<open>CHR 0x22\<close> is the double quote.
\<close>

definition object_label :: "DetectedObject \<Rightarrow> string" where
  "object_label obj = confidence_label (obj_confidence obj) @ '' '' @ obj_label obj"

definition text_label :: "ExtractedText \<Rightarrow> string" where
  "text_label text =
     (let conf_val = (case text_confidence text of Some c \<Rightarrow> c | None \<Rightarrow> 0.7)
      in confidence_label conf_val @ '' '' @ [CHR 0x22] @ text_text text @ [CHR 0x22])"

text \<open>The loop over the images, with its two accumulators.\<close>

fun collect_evidence :: "Image list \<Rightarrow> string list \<Rightarrow> string list \<Rightarrow> string list \<times> string list" where
  "collect_evidence [] all_objects all_texts = (all_objects, all_texts)"
| "collect_evidence (img # images) all_objects all_texts =
     collect_evidence images
       (all_objects @ map object_label (detected_objects img))
       (all_texts @ map text_label (extracted_texts img))"

definition build_evidence_context :: "Image list \<Rightarrow> string" where
  "build_evidence_context images =
     (if images = [] then ''''
      else
        (case collect_evidence images [] [] of (all_objects, all_texts) \<Rightarrow>
          (let objects_str = (if all_objects \<noteq> [] then join '', '' all_objects
                              else ''No objects detected'');
               texts_str = (if all_texts \<noteq> [] then join '', '' all_texts
                            else ''No text extracted'')
           in ''Evidence from the scene:'' @ [CHR 0x0A] @ ''Objects detected: '' @ objects_str
              @ [CHR 0x0A] @ ''Text found: '' @ texts_str)))"

section \<open>Pipeline runs (api/jobs.py, api/analyze.py)\<close>

text \<open>
  A run calls collaborators that are outside this development: the relational store, the
  storage client, the detector, the OCR engine and the language models. Such a call
  returns a value or raises. What is raised is either an instance of
  \<^verbatim>\<open>Exception\<close>, kept as its message \<^verbatim>\<open>str(e)\<close>, or an instance of
  \<^verbatim>\<open>BaseException\<close> outside \<^verbatim>\<open>Exception\<close> (\<^verbatim>\<open>SystemExit\<close>,
  \<^verbatim>\<open>KeyboardInterrupt\<close> and their like), kept as the name of its class.
\<close>

datatype exn = Exception string | BaseException string

text \<open>
  A piece of a run produces outputs in order (the \<^verbatim>\<open>update_job\<close> calls of the
  job, the events yielded by the stream) and then either raises or ends with a value.
  \<open>and_then\<close> is sequencing: what follows a raise is not executed. \<open>try_except\<close>
  is \<^verbatim>\<open>try: ... except Exception as e: ...\<close> with a handler that uses
  \<^verbatim>\<open>str(e)\<close>: it handles the instances of \<^verbatim>\<open>Exception\<close> and lets every
  other raise pass.
\<close>

type_synonym ('o, 'a) run = "'o list \<times> (exn + 'a)"

definition emit :: "'o \<Rightarrow> ('o, unit) run" where
  "emit x = ([x], Inr ())"

definition call :: "exn + 'a \<Rightarrow> ('o, 'a) run" where
  "call c = ([], c)"

definition and_then :: "('o, 'a) run \<Rightarrow> ('a \<Rightarrow> ('o, 'b) run) \<Rightarrow> ('o, 'b) run" where
  "and_then m f =
     (case m of
        (xs, Inl e) \<Rightarrow> (xs, Inl e)
      | (xs, Inr a) \<Rightarrow> (case f a of (ys, r) \<Rightarrow> (xs @ ys, r)))"

definition try_except :: "('o, 'a) run \<Rightarrow> (string \<Rightarrow> ('o, 'a) run) \<Rightarrow> ('o, 'a) run" where
  "try_except m h =
     (case m of
        (xs, Inl (Exception msg)) \<Rightarrow> (case h msg of (ys, r) \<Rightarrow> (xs @ ys, r))
      | (xs, Inl (BaseException name)) \<Rightarrow> (xs, Inl (BaseException name))
      | (xs, Inr a) \<Rightarrow> (xs, Inr a))"

text \<open>
  The collaborators' answers during one run. Each image of the conversation comes with
  the outcomes of the calls made for it, in the order of the loop body: the presigned URL,
  the commit of the status \<^verbatim>\<open>PROCESSING\<close>, the detection, the loop that adds the
  detected objects to the session, the text extraction, the loop that adds the texts, and
  the commit of the status \<^verbatim>\<open>COMPLETED\<close>.
\<close>

record image_calls =
  get_presigned_url :: "exn + string"
  commit_processing :: "exn + unit"
  detect_objects :: "exn + DetectedObject list"
  add_objects :: "exn + unit"
  extract_text :: "exn + ExtractedText list"
  add_texts :: "exn + unit"
  commit_completed :: "exn + unit"

text \<open>
  The conversation query answers whether the row exists. A token stream is the tokens it
  yields followed by its end or by a raise. \<open>save_message\<close> is the insertion of the
  assistant message (add, commit, refresh) and returns \<^verbatim>\<open>str(assistant_msg.id)\<close>.
  Opening and closing the session (\<^verbatim>\<open>SessionLocal()\<close> before the
  \<^verbatim>\<open>try\<close>, \<^verbatim>\<open>db.close()\<close> in the \<^verbatim>\<open>finally\<close>) build and release
  the session object without a query; they are taken to return and are not modelled.
\<close>

record env =
  query_conversation :: "exn + bool"
  query_images :: "exn + image_calls list"
  generate_hypothesis ::
    "DetectedObject list \<Rightarrow> ExtractedText list \<Rightarrow> string option \<Rightarrow> exn + string"
  generate_hypotheses_stream_groq ::
    "DetectedObject list \<Rightarrow> ExtractedText list \<Rightarrow> string option \<Rightarrow> string list \<times> exn option"
  analyze_multiple_images_with_vision_stream ::
    "string list \<Rightarrow> string option \<Rightarrow> string list \<times> exn option"
  commit_all_completed :: "exn + unit"
  save_message :: "string \<Rightarrow> exn + string"

subsection \<open>The background job\<close>

text \<open>The keyword arguments of one \<^verbatim>\<open>job_store.update_job\<close> call.\<close>

record update_args =
  arg_status :: "JobStatus option"
  arg_current_step :: "string option"
  arg_progress :: "pydict option"
  arg_result :: "pydict option"
  arg_error :: "string option"

definition job_image_progress :: "string \<Rightarrow> nat \<Rightarrow> nat \<Rightarrow> update_args" where
  "job_image_progress step idx total_images =
     \<lparr>arg_status = None, arg_current_step = Some step,
      arg_progress = Some [''image'' \<mapsto> PyInt (int idx),
                           ''total_images'' \<mapsto> PyInt (int total_images),
                           ''step'' \<mapsto> PyStr step],
      arg_result = None, arg_error = None\<rparr>"

definition job_failed :: "string \<Rightarrow> update_args" where
  "job_failed message =
     \<lparr>arg_status = Some FAILED, arg_current_step = None, arg_progress = None,
      arg_result = None, arg_error = Some message\<rparr>"

fun job_image_loop ::
  "nat \<Rightarrow> nat \<Rightarrow> image_calls list \<Rightarrow> DetectedObject list \<Rightarrow> ExtractedText list \<Rightarrow>
   (update_args, DetectedObject list \<times> ExtractedText list) run" where
  "job_image_loop idx total_images [] all_objects_data all_texts_data =
     ([], Inr (all_objects_data, all_texts_data))"
| "job_image_loop idx total_images (img # images) all_objects_data all_texts_data =
     and_then (call (get_presigned_url img)) (\<lambda>presigned_url.
     and_then (call (commit_processing img)) (\<lambda>_.
     and_then (emit (job_image_progress ''detection'' idx total_images)) (\<lambda>_.
     and_then (call (detect_objects img)) (\<lambda>detected.
     and_then (call (add_objects img)) (\<lambda>_.
     and_then (emit (job_image_progress ''ocr'' idx total_images)) (\<lambda>_.
     and_then (call (extract_text img)) (\<lambda>extracted.
     and_then (call (add_texts img)) (\<lambda>_.
     and_then (call (commit_completed img)) (\<lambda>_.
       job_image_loop (idx + 1) total_images images
         (all_objects_data @ detected) (all_texts_data @ extracted))))))))))"

text \<open>
  The body of the \<^verbatim>\<open>try\<close> block. The conversation id enters only through its
  rendering in the not-found message.
\<close>

definition job_body :: "string \<Rightarrow> string option \<Rightarrow> env \<Rightarrow> (update_args, unit) run" where
  "job_body conversation_id context e =
     and_then (emit \<lparr>arg_status = Some RUNNING, arg_current_step = Some ''validating'',
                     arg_progress = None, arg_result = None, arg_error = None\<rparr>) (\<lambda>_.
     and_then (call (query_conversation e)) (\<lambda>conversation.
       if \<not> conversation
       then emit (job_failed (''Conversation '' @ conversation_id @ '' not found''))
       else
     and_then (call (query_images e)) (\<lambda>images.
       if images = []
       then emit (job_failed ''No images in conversation'')
       else
     and_then (job_image_loop 1 (length images) images [] []) (\<lambda>(all_objects_data, all_texts_data).
     and_then (emit \<lparr>arg_status = None, arg_current_step = Some ''nlp'',
                     arg_progress = Some [''step'' \<mapsto> PyStr ''nlp'',
                                          ''status'' \<mapsto> PyStr ''generating hypothesis''],
                     arg_result = None, arg_error = None\<rparr>) (\<lambda>_.
     and_then (call (generate_hypothesis e all_objects_data all_texts_data context)) (\<lambda>content.
     and_then (call (save_message e content)) (\<lambda>message_id.
       emit \<lparr>arg_status = Some COMPLETED, arg_current_step = Some ''complete'',
             arg_progress = None,
             arg_result = Some [''message_id'' \<mapsto> PyStr message_id,
                                ''hypothesis'' \<mapsto> PyStr content,
                                ''objects_detected'' \<mapsto> PyInt (int (length all_objects_data)),
                                ''texts_extracted'' \<mapsto> PyInt (int (length all_texts_data))],
             arg_error = None\<rparr>)))))))"

definition run_analysis_job :: "string \<Rightarrow> string option \<Rightarrow> env \<Rightarrow> (update_args, unit) run" where
  "run_analysis_job conversation_id context e =
     try_except (job_body conversation_id context e) (\<lambda>msg. emit (job_failed msg))"

text \<open>
  The calls of a run reach the store one by one, each under the lock, between the calls of
  other requests. What a sequence of store operations does to one job id:
\<close>

datatype job_call = Created | Updated update_args | Deleted

fun call_on :: "uuid \<Rightarrow> store_op \<Rightarrow> job_call option" where
  "call_on jid (CreateJob new_id now1 now2) = (if new_id = jid then Some Created else None)"
| "call_on jid (UpdateJob now i st cs pr rs er) =
     (if i = jid
      then Some (Updated \<lparr>arg_status = st, arg_current_step = cs, arg_progress = pr,
                          arg_result = rs, arg_error = er\<rparr>)
      else None)"
| "call_on jid (DeleteJob i) = (if i = jid then Some Deleted else None)"

fun calls_on :: "uuid \<Rightarrow> store_op list \<Rightarrow> job_call list" where
  "calls_on jid [] = []"
| "calls_on jid (op # ops) =
     (case call_on jid op of None \<Rightarrow> calls_on jid ops | Some c \<Rightarrow> c # calls_on jid ops)"

subsection \<open>The event stream\<close>

text \<open>
  An event is yielded as a dict of its name and the JSON text of its payload; here it is
  the name with the payload's fields: \<^verbatim>\<open>start\<close> with \<^verbatim>\<open>total_images\<close>,
  \<^verbatim>\<open>progress\<close> with \<^verbatim>\<open>step\<close> and, when present, \<^verbatim>\<open>image\<close> and
  \<^verbatim>\<open>total_images\<close>, \<^verbatim>\<open>text\<close> with the token, \<^verbatim>\<open>complete\<close> with
  \<^verbatim>\<open>message_id\<close> and \<^verbatim>\<open>hypothesis\<close>, \<^verbatim>\<open>error\<close> with the message.
  The events of a run are those of the generator read to its end; a consumer that stops
  reading has seen a prefix of them.
\<close>

datatype event =
    Start nat
  | Progress string "nat option" "nat option"
  | Text string
  | Complete string string
  | Error string

text \<open>
  \<^verbatim>\<open>str.strip()\<close> removes leading and trailing whitespace. Characters are code points
  below 256, among which Python counts these as whitespace.
\<close>

definition isspace :: "char \<Rightarrow> bool" where
  "isspace c = (c \<in> {CHR 0x09, CHR 0x0A, CHR 0x0B, CHR 0x0C, CHR 0x0D, CHR 0x1C, CHR 0x1D,
                     CHR 0x1E, CHR 0x1F, CHR 0x20, CHR 0x85, CHR 0xA0})"

definition strip :: "string \<Rightarrow> string" where
  "strip s = rev (dropWhile isspace (rev (dropWhile isspace s)))"

fun basic_image_loop ::
  "nat \<Rightarrow> nat \<Rightarrow> image_calls list \<Rightarrow> DetectedObject list \<Rightarrow> ExtractedText list \<Rightarrow>
   (event, DetectedObject list \<times> ExtractedText list) run" where
  "basic_image_loop idx total_images [] all_objects_data all_texts_data =
     ([], Inr (all_objects_data, all_texts_data))"
| "basic_image_loop idx total_images (img # images) all_objects_data all_texts_data =
     and_then (call (get_presigned_url img)) (\<lambda>presigned_url.
     and_then (call (commit_processing img)) (\<lambda>_.
     and_then (emit (Progress ''detection'' (Some idx) (Some total_images))) (\<lambda>_.
     and_then (call (detect_objects img)) (\<lambda>detected.
     and_then (call (add_objects img)) (\<lambda>_.
     and_then (emit (Progress ''ocr'' (Some idx) (Some total_images))) (\<lambda>_.
     and_then (call (extract_text img)) (\<lambda>extracted.
     and_then (call (add_texts img)) (\<lambda>_.
     and_then (call (commit_completed img)) (\<lambda>_.
       basic_image_loop (idx + 1) total_images images
         (all_objects_data @ detected) (all_texts_data @ extracted))))))))))"

fun premium_image_loop ::
  "nat \<Rightarrow> nat \<Rightarrow> image_calls list \<Rightarrow> string list \<Rightarrow> (event, string list) run" where
  "premium_image_loop idx total_images [] image_urls = ([], Inr image_urls)"
| "premium_image_loop idx total_images (img # images) image_urls =
     and_then (call (get_presigned_url img)) (\<lambda>presigned_url.
     and_then (call (commit_processing img)) (\<lambda>_.
     and_then (emit (Progress ''processing'' (Some idx) (Some total_images))) (\<lambda>_.
       premium_image_loop (idx + 1) total_images images (image_urls @ [presigned_url]))))"

text \<open>
  \<^verbatim>\<open>for token in stream: full_hypothesis += token; yield text\<close>, on a stream that
  yields \<open>tokens\<close> and then ends (\<open>None\<close>) or raises.
\<close>

fun token_loop :: "string list \<Rightarrow> exn option \<Rightarrow> string \<Rightarrow> (event, string) run" where
  "token_loop [] None full_hypothesis = ([], Inr full_hypothesis)"
| "token_loop [] (Some ex) full_hypothesis = ([], Inl ex)"
| "token_loop (token # tokens) fin full_hypothesis =
     and_then (emit (Text token)) (\<lambda>_. token_loop tokens fin (full_hypothesis @ token))"

definition stream_body :: "string option \<Rightarrow> bool \<Rightarrow> env \<Rightarrow> (event, unit) run" where
  "stream_body context use_basic_pipeline e =
     and_then (call (query_conversation e)) (\<lambda>conversation.
       if \<not> conversation
       then emit (Error ''Conversation not found'')
       else
     and_then (call (query_images e)) (\<lambda>images.
       if images = []
       then emit (Error ''No images in conversation'')
       else
     and_then (emit (Start (length images))) (\<lambda>_.
     and_then
       (if use_basic_pipeline
        then
          and_then (basic_image_loop 1 (length images) images [] [])
            (\<lambda>(all_objects_data, all_texts_data).
          and_then (emit (Progress ''nlp'' None None)) (\<lambda>_.
            case generate_hypotheses_stream_groq e all_objects_data all_texts_data context of
              (tokens, fin) \<Rightarrow> token_loop tokens fin []))
        else
          and_then (premium_image_loop 1 (length images) images []) (\<lambda>image_urls.
          and_then (emit (Progress ''nlp'' None None)) (\<lambda>_.
          and_then
            (case analyze_multiple_images_with_vision_stream e image_urls context of
               (tokens, fin) \<Rightarrow> token_loop tokens fin []) (\<lambda>full_hypothesis.
          and_then (call (commit_all_completed e)) (\<lambda>_.
            ([], Inr full_hypothesis))))))
       (\<lambda>full_hypothesis.
     and_then (call (save_message e (strip full_hypothesis))) (\<lambda>message_id.
       emit (Complete message_id (strip full_hypothesis)))))))"

definition analyze_stream_generator :: "string option \<Rightarrow> bool \<Rightarrow> env \<Rightarrow> (event, unit) run" where
  "analyze_stream_generator context use_basic_pipeline e =
     try_except (stream_body context use_basic_pipeline e) (\<lambda>msg. emit (Error msg))"

fun text_payloads :: "event list \<Rightarrow> string list" where
  "text_payloads [] = []"
| "text_payloads (Text t # evs) = t # text_payloads evs"
| "text_payloads (_ # evs) = text_payloads evs"


fun is_progress :: "event \<Rightarrow> bool" where
  "is_progress (Progress step idx total_images) = True"
| "is_progress _ = False"

subsection \<open>The first call that raises\<close>









subsection \<open>Shapes of runs\<close>

text \<open>
  A piece of a run \<open>ends_with N T\<close> when every output of it satisfies \<open>N\<close>, except
  that the last one satisfies \<open>T\<close> if the piece ends without raising.
\<close>

definition ends_with :: "('o \<Rightarrow> bool) \<Rightarrow> ('o \<Rightarrow> bool) \<Rightarrow> ('o, 'a) run \<Rightarrow> bool" where
  "ends_with N T m =
     (case snd m of
        Inl ex \<Rightarrow> list_all N (fst m)
      | Inr a \<Rightarrow> fst m \<noteq> [] \<and> T (last (fst m)) \<and> list_all N (butlast (fst m)))"

text \<open>
  An update call that sets neither \<^verbatim>\<open>result\<close> nor \<^verbatim>\<open>error\<close>, and one that
  completes or fails the job.
\<close>

definition sets_no_outcome :: "update_args \<Rightarrow> bool" where
  "sets_no_outcome u = (arg_result u = None \<and> arg_error u = None)"

definition sets_outcome :: "update_args \<Rightarrow> bool" where
  "sets_outcome u =
     (arg_status u = Some COMPLETED \<and> arg_result u \<noteq> None \<and> arg_error u = None
      \<or> arg_status u = Some FAILED \<and> arg_result u = None \<and> arg_error u \<noteq> None)"

text \<open>
  The status, result and error of a job, and what a call on the job's id does to them.
\<close>

type_synonym outcome = "JobStatus \<times> pydict option \<times> string option"

definition job_outcome :: "Job \<Rightarrow> outcome" where
  "job_outcome job = (status job, result job, error job)"

fun replay :: "outcome option \<Rightarrow> job_call \<Rightarrow> outcome option" where
  "replay v Created = Some (PENDING, None, None)"
| "replay v (Updated u) =
     map_option (\<lambda>(st, rs, er).
       (case arg_status u of None \<Rightarrow> st | Some x \<Rightarrow> x,
        case arg_result u of None \<Rightarrow> rs | Some x \<Rightarrow> Some x,
        case arg_error u of None \<Rightarrow> er | Some x \<Rightarrow> Some x)) v"
| "replay v Deleted = None"

subsection \<open>Example runs\<close>

text \<open>
  A conversation with one image on which every call succeeds, and the environments in
  which the conversation is missing, has no image, the OCR engine fails, or the detector
  raises \<^verbatim>\<open>SystemExit\<close>.
\<close>

definition image_ok :: image_calls where
  "image_ok =
     \<lparr>get_presigned_url = Inr ''https://storage/img1'', commit_processing = Inr (),
      detect_objects = Inr [\<lparr>obj_label = ''knife'', obj_confidence = 0.9\<rparr>],
      add_objects = Inr (),
      extract_text = Inr [\<lparr>text_text = ''HELP'', text_confidence = Some 0.8\<rparr>],
      add_texts = Inr (), commit_completed = Inr ()\<rparr>"

definition env_ok :: env where
  "env_ok =
     \<lparr>query_conversation = Inr True, query_images = Inr [image_ok],
      generate_hypothesis = (\<lambda>objects texts context. Inr ''A break-in.''),
      generate_hypotheses_stream_groq =
        (\<lambda>objects texts context. (['' A'', '' break'', ''-in. ''], None)),
      analyze_multiple_images_with_vision_stream =
        (\<lambda>image_urls context. ([''Forced '', ''entry.'', [CHR 0x0A]], None)),
      commit_all_completed = Inr (),
      save_message = (\<lambda>content. Inr ''m1'')\<rparr>"

definition env_not_found :: env where
  "env_not_found = env_ok\<lparr>query_conversation := Inr False\<rparr>"




text \<open>
  Store traces in which job 7 is created and updated by its run, between the operations
  of another job: the run that completes, the run that finds no conversation, the run
  whose OCR stage raises, and operations that follow a run.
\<close>

definition trace_completed :: "store_op list" where
  "trace_completed =
     [CreateJob 7 100 100,
      UpdateJob 101 7 (Some RUNNING) (Some ''validating'') None None None,
      CreateJob 8 102 102,
      UpdateJob 103 7 None (Some ''detection'')
        (Some [''image'' \<mapsto> PyInt 1, ''total_images'' \<mapsto> PyInt 1,
               ''step'' \<mapsto> PyStr ''detection'']) None None,
      UpdateJob 104 7 None (Some ''ocr'')
        (Some [''image'' \<mapsto> PyInt 1, ''total_images'' \<mapsto> PyInt 1,
               ''step'' \<mapsto> PyStr ''ocr'']) None None,
      UpdateJob 105 7 None (Some ''nlp'')
        (Some [''step'' \<mapsto> PyStr ''nlp'', ''status'' \<mapsto> PyStr ''generating hypothesis''])
        None None,
      UpdateJob 106 7 (Some COMPLETED) (Some ''complete'') None
        (Some [''message_id'' \<mapsto> PyStr ''m1'', ''hypothesis'' \<mapsto> PyStr ''A break-in.'',
               ''objects_detected'' \<mapsto> PyInt 1, ''texts_extracted'' \<mapsto> PyInt 1]) None]"

definition trace_not_found :: "store_op list" where
  "trace_not_found =
     [CreateJob 7 100 100,
      UpdateJob 101 7 (Some RUNNING) (Some ''validating'') None None None,
      CreateJob 8 102 102,
      UpdateJob 103 7 (Some FAILED) None None None (Some ''Conversation c1 not found'')]"



definition trace_later :: "store_op list" where
  "trace_later =
     [UpdateJob 107 8 (Some RUNNING) (Some ''validating'') None None None, DeleteJob 8]"



section \<open>Properties of the job registry\<close>

subsection \<open>What one update call does\<close>

lemma update_job_absent:
  "map_of s jid = None \<Longrightarrow> update_job s now jid st cs pr rs er = (s, None)"
  by (simp add: update_job_def)

lemma update_job_other:
  "k \<noteq> jid \<Longrightarrow> map_of (fst (update_job s now jid st cs pr rs er)) k = map_of s k"
  by (simp add: update_job_def Let_def update_conv' split: option.splits)

lemma update_job_keys:
  "map fst (fst (update_job s now jid st cs pr rs er)) = map fst s"
  by (auto simp add: update_job_def Let_def update_keys map_of_eq_None_iff image_iff split: option.splits)

lemma update_job_stored:
  "map_of s jid = Some job \<Longrightarrow>
   map_of (fst (update_job s now jid st cs pr rs er)) jid = snd (update_job s now jid st cs pr rs er)"
  by (simp add: update_job_def Let_def update_conv')

lemma update_job_fields:
  assumes "map_of s jid = Some job"
  shows "\<exists>job'. snd (update_job s now jid st cs pr rs er) = Some job'
     \<and> job_id job' = job_id job
     \<and> created_at job' = created_at job
     \<and> updated_at job' = now
     \<and> status job' = (case st of None \<Rightarrow> status job | Some v \<Rightarrow> v)
     \<and> current_step job' = (case cs of None \<Rightarrow> current_step job | Some v \<Rightarrow> Some v)
     \<and> progress job' = (case pr of None \<Rightarrow> progress job | Some d \<Rightarrow> progress job ++ d)
     \<and> result job' = (case rs of None \<Rightarrow> result job | Some v \<Rightarrow> Some v)
     \<and> error job' = (case er of None \<Rightarrow> error job | Some v \<Rightarrow> Some v)"
  using assms by (simp add: update_job_def Let_def split: option.splits)

text \<open>
  The association list stays a dict: no operation introduces a second entry for a key.
\<close>

lemma apply_op_distinct:
  assumes "distinct (map fst s)"
  shows "distinct (map fst (apply_op s op))"
proof (cases op)
  case (CreateJob i t1 t2)
  then show ?thesis
    using assms by (simp add: create_job_def Let_def distinct_update)
next
  case (UpdateJob now i st cs pr rs er)
  then show ?thesis using assms by (simp add: update_job_keys)
next
  case (DeleteJob i)
  then show ?thesis
    using assms by (simp add: delete_job_def distinct_delete)
qed

lemma run_ops_distinct:
  "distinct (map fst s) \<Longrightarrow> distinct (map fst (run_ops s ops))"
  unfolding run_ops_def
  by (induction ops arbitrary: s) (simp_all add: apply_op_distinct)

subsection \<open>Partial update (C9)\<close>

text \<open>
  C9. An update of a job that is present changes exactly the fields whose arguments are
  given: \<^verbatim>\<open>status\<close>, \<^verbatim>\<open>current_step\<close>, \<^verbatim>\<open>result\<close> and
  \<^verbatim>\<open>error\<close> take the argument when there is one and keep their value when it is
  \<^verbatim>\<open>None\<close>, \<^verbatim>\<open>progress\<close> is merged with the argument when there is one,
  the id and \<^verbatim>\<open>created_at\<close> never change, and \<^verbatim>\<open>updated_at\<close> becomes the
  time of the call, also when every optional argument is omitted. The job returned is the
  job stored; the other jobs and the order of the store are unchanged.
\<close>

theorem update_job_frame:
  assumes "get_job s jid = Some job"
  shows "\<exists>job'. snd (update_job s now jid st cs pr rs er) = Some job'
     \<and> get_job (fst (update_job s now jid st cs pr rs er)) jid = Some job'
     \<and> status job' = (case st of None \<Rightarrow> status job | Some v \<Rightarrow> v)
     \<and> current_step job' = (case cs of None \<Rightarrow> current_step job | Some v \<Rightarrow> Some v)
     \<and> progress job' = (case pr of None \<Rightarrow> progress job | Some d \<Rightarrow> progress job ++ d)
     \<and> result job' = (case rs of None \<Rightarrow> result job | Some v \<Rightarrow> Some v)
     \<and> error job' = (case er of None \<Rightarrow> error job | Some v \<Rightarrow> Some v)
     \<and> job_id job' = job_id job
     \<and> created_at job' = created_at job
     \<and> updated_at job' = now
     \<and> snd (update_job s now jid None None None None None) = Some (job\<lparr>updated_at := now\<rparr>)
     \<and> (\<forall>k. k \<noteq> jid \<longrightarrow> get_job (fst (update_job s now jid st cs pr rs er)) k = get_job s k)
     \<and> map fst (fst (update_job s now jid st cs pr rs er)) = map fst s"
proof -
  have m: "map_of s jid = Some job" using assms by (simp add: get_job_def)
  obtain job' where j: "snd (update_job s now jid st cs pr rs er) = Some job'"
      "job_id job' = job_id job" "created_at job' = created_at job" "updated_at job' = now"
      "status job' = (case st of None \<Rightarrow> status job | Some v \<Rightarrow> v)"
      "current_step job' = (case cs of None \<Rightarrow> current_step job | Some v \<Rightarrow> Some v)"
      "progress job' = (case pr of None \<Rightarrow> progress job | Some d \<Rightarrow> progress job ++ d)"
      "result job' = (case rs of None \<Rightarrow> result job | Some v \<Rightarrow> Some v)"
      "error job' = (case er of None \<Rightarrow> error job | Some v \<Rightarrow> Some v)"
    using update_job_fields [OF m, of now st cs pr rs er] by blast
  have st: "get_job (fst (update_job s now jid st cs pr rs er)) jid = Some job'"
    using update_job_stored [OF m, of now st cs pr rs er] j(1) by (simp add: get_job_def)
  have none: "snd (update_job s now jid None None None None None) = Some (job\<lparr>updated_at := now\<rparr>)"
    using m by (simp add: update_job_def Let_def)
  have other: "\<forall>k. k \<noteq> jid \<longrightarrow> get_job (fst (update_job s now jid st cs pr rs er)) k = get_job s k"
    by (simp add: get_job_def update_job_other)
  show ?thesis
    using j st none other update_job_keys [of s now jid st cs pr rs er] by blast
qed

theorem update_job_frame_witness:
  "get_job (fst (create_job [] 7 100 101)) 7 = Some (snd (create_job [] 7 100 101))
   \<and> (\<exists>job'. get_job (fst (update_job (fst (create_job [] 7 100 101)) 250 7
          (Some RUNNING) (Some ''validating'') None None None)) 7 = Some job'
      \<and> status job' = RUNNING \<and> current_step job' = Some ''validating''
      \<and> progress job' = Map.empty \<and> result job' = None \<and> error job' = None
      \<and> job_id job' = 7 \<and> created_at job' = 100 \<and> updated_at job' = 250)
   \<and> snd (update_job (fst (create_job [] 7 100 101)) 250 7 None None None None None)
       = Some \<lparr>job_id = 7, status = PENDING, created_at = 100, updated_at = 250,
                current_step = None, progress = Map.empty, result = None, error = None\<rparr>"
proof -
  have h: "get_job (fst (create_job [] 7 100 101)) 7 = Some (snd (create_job [] 7 100 101))"
    by (simp add: create_job_def get_job_def Let_def)
  have p: "snd (create_job [] 7 100 101)
     = \<lparr>job_id = 7, status = PENDING, created_at = 100, updated_at = 101,
                current_step = None, progress = Map.empty, result = None, error = None\<rparr>"
    by (simp add: create_job_def Let_def)
  show ?thesis
    using h update_job_frame [OF h, of 250 "Some RUNNING" "Some ''validating''" None None None]
    by (auto simp add: p)
qed

subsection \<open>Merging of progress (C4)\<close>

text \<open>
  C4. An update with a progress delta merges it key by key into the job's map: a key of
  the delta takes the delta's value, every other key keeps its own. After two such updates
  the map is the old one extended by both deltas, the second delta is contained in it, and
  so is the first when the two deltas have disjoint keys.
\<close>

theorem update_job_progress_merge:
  assumes "get_job s jid = Some job"
  shows "\<exists>job1 job2.
      get_job (fst (update_job s t1 jid st1 cs1 (Some d1) rs1 er1)) jid = Some job1
    \<and> progress job1 = progress job ++ d1
    \<and> (\<forall>k. progress job1 k = (case d1 k of Some v \<Rightarrow> Some v | None \<Rightarrow> progress job k))
    \<and> get_job (fst (update_job (fst (update_job s t1 jid st1 cs1 (Some d1) rs1 er1))
                  t2 jid st2 cs2 (Some d2) rs2 er2)) jid = Some job2
    \<and> progress job2 = progress job ++ d1 ++ d2
    \<and> dom (progress job2) = dom (progress job) \<union> dom d1 \<union> dom d2
    \<and> d2 \<subseteq>\<^sub>m progress job2
    \<and> (dom d1 \<inter> dom d2 = {} \<longrightarrow> d1 \<subseteq>\<^sub>m progress job2)"
proof -
  have m: "map_of s jid = Some job" using assms by (simp add: get_job_def)
  let ?u1 = "update_job s t1 jid st1 cs1 (Some d1) rs1 er1"
  obtain job1 where j1: "snd ?u1 = Some job1" "progress job1 = progress job ++ d1"
    using update_job_fields [OF m, of t1 st1 cs1 "Some d1" rs1 er1] by auto
  have m1: "map_of (fst ?u1) jid = Some job1"
    using update_job_stored [OF m, of t1 st1 cs1 "Some d1" rs1 er1] j1 by simp
  let ?u2 = "update_job (fst ?u1) t2 jid st2 cs2 (Some d2) rs2 er2"
  obtain job2 where j2: "snd ?u2 = Some job2" "progress job2 = progress job1 ++ d2"
    using update_job_fields [OF m1, of t2 st2 cs2 "Some d2" rs2 er2] by auto
  have m2: "map_of (fst ?u2) jid = Some job2"
    using update_job_stored [OF m1, of t2 st2 cs2 "Some d2" rs2 er2] j2 by simp
  have p2: "progress job2 = progress job ++ d1 ++ d2"
    using j1 j2 by simp
  have a: "\<forall>k. progress job1 k = (case d1 k of Some v \<Rightarrow> Some v | None \<Rightarrow> progress job k)"
    using j1 by (simp add: map_add_def split: option.splits)
  have b: "dom (progress job2) = dom (progress job) \<union> dom d1 \<union> dom d2"
    using p2 by auto
  have c: "d2 \<subseteq>\<^sub>m progress job2"
    using p2 by (simp add: map_le_def map_add_dom_app_simps)
  have d: "dom d1 \<inter> dom d2 = {} \<longrightarrow> d1 \<subseteq>\<^sub>m progress job2"
  proof
    assume dis: "dom d1 \<inter> dom d2 = {}"
    have "\<And>k v. d1 k = Some v \<Longrightarrow> (progress job ++ d1 ++ d2) k = Some v"
    proof -
      fix k v assume kv: "d1 k = Some v"
      then have "k \<notin> dom d2" using dis by auto
      then show "(progress job ++ d1 ++ d2) k = Some v"
        using kv by (simp add: map_add_def domIff)
    qed
    then show "d1 \<subseteq>\<^sub>m progress job2"
      using p2 by (auto simp add: map_le_def)
  qed
  show ?thesis
    using m1 m2 j1 p2 a b c d by (simp add: get_job_def)
qed

theorem update_job_progress_merge_witness:
  "get_job (fst (create_job [] 7 100 101)) 7 = Some (snd (create_job [] 7 100 101))
   \<and> dom [''image'' \<mapsto> PyInt 1] \<inter> dom [''step'' \<mapsto> PyStr ''ocr''] = {}
   \<and> (\<exists>job2.
        get_job (fst (update_job
            (fst (update_job (fst (create_job [] 7 100 101)) 102 7 None (Some ''detection'')
                    (Some [''image'' \<mapsto> PyInt 1]) None None))
            103 7 None (Some ''ocr'') (Some [''step'' \<mapsto> PyStr ''ocr'']) None None)) 7 = Some job2
      \<and> progress job2 ''image'' = Some (PyInt 1)
      \<and> progress job2 ''step'' = Some (PyStr ''ocr'')
      \<and> dom (progress job2) = {''image'', ''step''})"
proof -
  have h: "get_job (fst (create_job [] 7 100 101)) 7 = Some (snd (create_job [] 7 100 101))"
    by (simp add: create_job_def get_job_def Let_def)
  have p: "progress (snd (create_job [] 7 100 101)) = Map.empty"
    by (simp add: create_job_def Let_def)
  show ?thesis
    using h p update_job_progress_merge [OF h, of 102 None "Some ''detection''"
        "[''image'' \<mapsto> PyInt 1]" None None 103 None "Some ''ocr''"
        "[''step'' \<mapsto> PyStr ''ocr'']" None None]
    by auto
qed

subsection \<open>Fields never return to null (C5)\<close>

lemma apply_update_job:
  assumes "map_of s jid = Some job" and "is_update op"
  shows "\<exists>job'. map_of (apply_op s op) jid = Some job'
     \<and> dom (progress job) \<subseteq> dom (progress job')
     \<and> (current_step job \<noteq> None \<longrightarrow> current_step job' \<noteq> None)
     \<and> (result job \<noteq> None \<longrightarrow> result job' \<noteq> None)
     \<and> (error job \<noteq> None \<longrightarrow> error job' \<noteq> None)"
proof (cases op)
  case (UpdateJob now i st cs pr rs er)
  show ?thesis
  proof (cases "i = jid")
    case True
    obtain job' where j: "snd (update_job s now jid st cs pr rs er) = Some job'"
      "current_step job' = (case cs of None \<Rightarrow> current_step job | Some v \<Rightarrow> Some v)"
      "progress job' = (case pr of None \<Rightarrow> progress job | Some d \<Rightarrow> progress job ++ d)"
      "result job' = (case rs of None \<Rightarrow> result job | Some v \<Rightarrow> Some v)"
      "error job' = (case er of None \<Rightarrow> error job | Some v \<Rightarrow> Some v)"
      using update_job_fields [OF assms(1), of now st cs pr rs er] by blast
    have "map_of (apply_op s op) jid = Some job'"
      using update_job_stored [OF assms(1), of now st cs pr rs er] j(1) UpdateJob True by simp
    moreover have "dom (progress job) \<subseteq> dom (progress job')"
      using j(3) by (cases pr) auto
    moreover have "current_step job \<noteq> None \<longrightarrow> current_step job' \<noteq> None"
      using j(2) by (cases cs) auto
    moreover have "result job \<noteq> None \<longrightarrow> result job' \<noteq> None"
      using j(4) by (cases rs) auto
    moreover have "error job \<noteq> None \<longrightarrow> error job' \<noteq> None"
      using j(5) by (cases er) auto
    ultimately show ?thesis by blast
  next
    case False
    then have "map_of (apply_op s op) jid = Some job"
      using UpdateJob assms(1) by (simp add: update_job_other)
    then show ?thesis by simp
  qed
next
  case (CreateJob a b c)
  then show ?thesis using assms(2) by simp
next
  case (DeleteJob a)
  then show ?thesis using assms(2) by simp
qed

text \<open>
  C5. Along every sequence of update calls (on any ids, with any arguments) a job that is
  present stays present, the keys of its \<^verbatim>\<open>progress\<close> map only grow, and each of
  \<^verbatim>\<open>current_step\<close>, \<^verbatim>\<open>result\<close> and \<^verbatim>\<open>error\<close> that is not
  \<^verbatim>\<open>None\<close> stays so.
\<close>

theorem update_sequence_monotone:
  assumes "get_job s jid = Some job" and "list_all is_update ops"
  shows "\<exists>job'. get_job (run_ops s ops) jid = Some job'
     \<and> dom (progress job) \<subseteq> dom (progress job')
     \<and> (current_step job \<noteq> None \<longrightarrow> current_step job' \<noteq> None)
     \<and> (result job \<noteq> None \<longrightarrow> result job' \<noteq> None)
     \<and> (error job \<noteq> None \<longrightarrow> error job' \<noteq> None)"
  using assms
proof (induction ops arbitrary: s job)
  case Nil
  then show ?case by (simp add: run_ops_def)
next
  case (Cons op ops)
  have m: "map_of s jid = Some job" using Cons.prems(1) by (simp add: get_job_def)
  have u: "is_update op" and us: "list_all is_update ops" using Cons.prems(2) by simp_all
  obtain job1 where j1: "map_of (apply_op s op) jid = Some job1"
      "dom (progress job) \<subseteq> dom (progress job1)"
      "current_step job \<noteq> None \<longrightarrow> current_step job1 \<noteq> None"
      "result job \<noteq> None \<longrightarrow> result job1 \<noteq> None"
      "error job \<noteq> None \<longrightarrow> error job1 \<noteq> None"
    using apply_update_job [OF m u] by blast
  have g1: "get_job (apply_op s op) jid = Some job1" using j1(1) by (simp add: get_job_def)
  obtain job' where j': "get_job (run_ops (apply_op s op) ops) jid = Some job'"
      "dom (progress job1) \<subseteq> dom (progress job')"
      "current_step job1 \<noteq> None \<longrightarrow> current_step job' \<noteq> None"
      "result job1 \<noteq> None \<longrightarrow> result job' \<noteq> None"
      "error job1 \<noteq> None \<longrightarrow> error job' \<noteq> None"
    using Cons.IH [OF g1 us] by blast
  have "run_ops s (op # ops) = run_ops (apply_op s op) ops" by (simp add: run_ops_def)
  then show ?case using j1 j' by auto
qed

theorem update_sequence_monotone_witness:
  "get_job [(7, \<lparr>job_id = 7, status = FAILED, created_at = 100, updated_at = 102,
              current_step = Some ''detection'', progress = [''image'' \<mapsto> PyInt 1],
              result = Some [''message_id'' \<mapsto> PyStr ''m''], error = Some ''boom''\<rparr>)] 7
     = Some \<lparr>job_id = 7, status = FAILED, created_at = 100, updated_at = 102,
              current_step = Some ''detection'', progress = [''image'' \<mapsto> PyInt 1],
              result = Some [''message_id'' \<mapsto> PyStr ''m''], error = Some ''boom''\<rparr>
   \<and> list_all is_update [UpdateJob 103 7 None None None None None,
         UpdateJob 104 8 (Some FAILED) None None None (Some ''x''),
         UpdateJob 105 7 (Some RUNNING) None (Some [''step'' \<mapsto> PyStr ''ocr'']) None None]
   \<and> (\<exists>job'. get_job (run_ops
         [(7, \<lparr>job_id = 7, status = FAILED, created_at = 100, updated_at = 102,
              current_step = Some ''detection'', progress = [''image'' \<mapsto> PyInt 1],
              result = Some [''message_id'' \<mapsto> PyStr ''m''], error = Some ''boom''\<rparr>)]
         [UpdateJob 103 7 None None None None None,
          UpdateJob 104 8 (Some FAILED) None None None (Some ''x''),
          UpdateJob 105 7 (Some RUNNING) None (Some [''step'' \<mapsto> PyStr ''ocr'']) None None]) 7
         = Some job'
      \<and> ''image'' \<in> dom (progress job')
      \<and> current_step job' \<noteq> None \<and> result job' \<noteq> None \<and> error job' \<noteq> None)"
proof -
  let ?J = "\<lparr>job_id = 7, status = FAILED, created_at = 100, updated_at = 102,
              current_step = Some ''detection'', progress = [''image'' \<mapsto> PyInt 1],
              result = Some [''message_id'' \<mapsto> PyStr ''m''], error = Some ''boom''\<rparr>"
  let ?ops = "[UpdateJob 103 7 None None None None None,
         UpdateJob 104 8 (Some FAILED) None None None (Some ''x''),
         UpdateJob 105 7 (Some RUNNING) None (Some [''step'' \<mapsto> PyStr ''ocr'']) None None]"
  have h1: "get_job [(7, ?J)] 7 = Some ?J" by (simp add: get_job_def)
  have h2: "list_all is_update ?ops" by simp
  show ?thesis
    using h1 h2 update_sequence_monotone [OF h1 h2] by auto
qed

subsection \<open>Deletion (C10)\<close>

text \<open>
  C10. Deleting a job that is present reports success and a second deletion of the same
  id reports not-found; in general the call reports exactly whether the id was present,
  the id is absent afterwards and every other entry is untouched.
\<close>

theorem delete_job_twice:
  "(map_of s jid \<noteq> None \<longrightarrow>
      snd (delete_job s jid) = True \<and> snd (delete_job (fst (delete_job s jid)) jid) = False)
   \<and> snd (delete_job s jid) = (map_of s jid \<noteq> None)
   \<and> map_of (fst (delete_job s jid)) jid = None
   \<and> (\<forall>k. k \<noteq> jid \<longrightarrow> map_of (fst (delete_job s jid)) k = map_of s k)
   \<and> (map_of s jid = None \<longrightarrow> fst (delete_job s jid) = s)"
  by (simp add: delete_job_def delete_conv)

theorem delete_job_twice_witness:
  "map_of (fst (create_job [] 7 100 100)) 7 \<noteq> None
   \<and> snd (delete_job (fst (create_job [] 7 100 100)) 7) = True
   \<and> snd (delete_job (fst (delete_job (fst (create_job [] 7 100 100)) 7)) 7) = False
   \<and> fst (delete_job (fst (create_job [] 7 100 100)) 7) = []"
  using delete_job_twice [of "fst (create_job [] 7 100 100)" 7]
  by (simp add: create_job_def delete_job_def Let_def)

subsection \<open>Listing (C6)\<close>

lemma sorted_reverse_desc:
  "sorted_wrt (\<lambda>a b. k a \<ge> k b) (sorted_reverse k xs)"
proof -
  have "sorted (map k (sort_key k (rev xs)))" by (rule sorted_sort_key)
  then have "sorted_wrt (\<lambda>a b. k a \<le> k b) (sort_key k (rev xs))"
    by (simp add: sorted_map)
  then show ?thesis
    by (simp add: sorted_reverse_def sorted_wrt_rev)
qed

lemma length_sorted_reverse: "length (sorted_reverse k xs) = length xs"
  by (simp add: sorted_reverse_def)

lemma set_sorted_reverse: "set (sorted_reverse k xs) = set xs"
  by (simp add: sorted_reverse_def)

lemma distinct_keys_sorted_reverse:
  "distinct (map k (sorted_reverse k xs)) = distinct (map k xs)"
  by (simp add: sorted_reverse_def distinct_map)

lemma slice_to_prefix: "\<exists>n. slice_to xs m = take n xs"
  by (auto simp add: slice_to_def)

lemma desc_distinct_strict:
  "sorted_wrt (\<lambda>a b. k a \<ge> k b) xs \<Longrightarrow> distinct (map k xs) \<Longrightarrow>
   sorted_wrt (\<lambda>a b. (k a :: 'k :: linorder) > k b) xs"
proof (induction xs)
  case Nil
  then show ?case by simp
next
  case (Cons a xs)
  have "\<forall>x\<in>set xs. k x < k a"
  proof
    fix x assume x: "x \<in> set xs"
    then have "k x \<le> k a" using Cons.prems(1) by simp
    moreover have "k a \<notin> k ` set xs" using Cons.prems(2) by simp
    then have "k x \<noteq> k a" using x by (metis imageI)
    ultimately show "k x < k a" by simp
  qed
  then show ?case using Cons by simp
qed

lemma sorted_reverse_stable:
  "filter (\<lambda>x. k x = t) (sorted_reverse k xs) = filter (\<lambda>x. k x = t) xs"
proof -
  have "filter (\<lambda>x. k x = t) (sorted_reverse k xs)
      = rev (filter (\<lambda>x. k x = t) (sort_key k (rev xs)))"
    by (simp add: sorted_reverse_def rev_filter)
  also have "\<dots> = rev (filter (\<lambda>x. k x = t) (rev xs))"
    by (simp only: sort_key_stable)
  also have "\<dots> = filter (\<lambda>x. k x = t) xs"
    by (simp add: rev_filter)
  finally show ?thesis .
qed

lemma list_jobs_all: "list_jobs s (int (length s)) = sorted_reverse created_at (map snd s)"
  by (simp add: list_jobs_def slice_to_def length_sorted_reverse)

text \<open>
  C6, as the code has it. Listing with the limit \<open>total\<close>, the number of stored jobs,
  gives the whole sorted sequence: all stored jobs, in descending order of
  \<^verbatim>\<open>created_at\<close>, those with the same \<^verbatim>\<open>created_at\<close> in the order of their
  insertion. Listing with a limit \<open>N \<ge> 0\<close> gives the first \<open>N\<close> jobs of that
  sequence, \<open>min N total\<close> of them; listing with a negative limit gives all but its
  last \<open>-N\<close> jobs. So the jobs listed are stored jobs in descending order of
  \<^verbatim>\<open>created_at\<close>, strictly so when no two stored jobs share a creation time, and
  there are no more of them than stored jobs.
\<close>

theorem list_jobs_order_and_length:
  "sorted_wrt (\<lambda>a b. created_at a \<ge> created_at b) (list_jobs s limit)
   \<and> (distinct (map created_at (map snd s)) \<longrightarrow>
        sorted_wrt (\<lambda>a b. created_at a > created_at b) (list_jobs s limit))
   \<and> set (list_jobs s limit) \<subseteq> set (map snd s)
   \<and> length (list_jobs s limit) \<le> length s
   \<and> (0 \<le> limit \<longrightarrow> int (length (list_jobs s limit)) \<le> limit
        \<and> length (list_jobs s limit) = min (nat limit) (length s))
   \<and> (limit < 0 \<longrightarrow> length (list_jobs s limit) = length s - nat (- limit))
   \<and> sorted_wrt (\<lambda>a b. created_at a \<ge> created_at b) (list_jobs s (int (length s)))
   \<and> length (list_jobs s (int (length s))) = length s
   \<and> (\<forall>t. filter (\<lambda>job. created_at job = t) (list_jobs s (int (length s)))
          = filter (\<lambda>job. created_at job = t) (map snd s))
   \<and> (0 \<le> limit \<longrightarrow>
        list_jobs s limit = take (nat limit) (list_jobs s (int (length s))))
   \<and> (limit < 0 \<longrightarrow>
        list_jobs s limit = take (length s - nat (- limit)) (list_jobs s (int (length s))))"
proof -
  let ?xs = "sorted_reverse created_at (map snd s)"
  obtain n where n: "list_jobs s limit = take n ?xs"
    using slice_to_prefix [of ?xs limit] by (auto simp add: list_jobs_def)
  have d: "sorted_wrt (\<lambda>a b. created_at a \<ge> created_at b) ?xs"
    by (rule sorted_reverse_desc)
  have a: "sorted_wrt (\<lambda>a b. created_at a \<ge> created_at b) (list_jobs s limit)"
    using d n by (simp add: sorted_wrt_take)
  have b: "distinct (map created_at (map snd s)) \<longrightarrow>
        sorted_wrt (\<lambda>a b. created_at a > created_at b) (list_jobs s limit)"
  proof
    assume "distinct (map created_at (map snd s))"
    then have "distinct (map created_at ?xs)"
      by (simp only: distinct_keys_sorted_reverse)
    then have "sorted_wrt (\<lambda>a b. created_at a > created_at b) ?xs"
      using d desc_distinct_strict by blast
    then show "sorted_wrt (\<lambda>a b. created_at a > created_at b) (list_jobs s limit)"
      using n by (simp add: sorted_wrt_take)
  qed
  have c: "set (list_jobs s limit) \<subseteq> set (map snd s)"
    using n set_take_subset [of n ?xs] by (simp add: set_sorted_reverse)
  have e: "length (list_jobs s limit) \<le> length s"
    using n by (simp add: length_sorted_reverse)
  have f: "0 \<le> limit \<longrightarrow> int (length (list_jobs s limit)) \<le> limit
        \<and> length (list_jobs s limit) = min (nat limit) (length s)"
    by (auto simp add: list_jobs_def slice_to_def length_sorted_reverse)
  have g: "limit < 0 \<longrightarrow> length (list_jobs s limit) = length s - nat (- limit)"
    by (auto simp add: list_jobs_def slice_to_def length_sorted_reverse)
  have h: "sorted_wrt (\<lambda>a b. created_at a \<ge> created_at b) (list_jobs s (int (length s)))"
    using d by (simp only: list_jobs_all)
  have i: "length (list_jobs s (int (length s))) = length s"
    by (simp only: list_jobs_all length_sorted_reverse length_map)
  have j: "\<forall>t. filter (\<lambda>job. created_at job = t) (list_jobs s (int (length s)))
          = filter (\<lambda>job. created_at job = t) (map snd s)"
    by (simp only: list_jobs_all sorted_reverse_stable) simp
  have k: "0 \<le> limit \<longrightarrow>
        list_jobs s limit = take (nat limit) (list_jobs s (int (length s)))"
    by (simp only: list_jobs_all) (simp add: list_jobs_def slice_to_def)
  have l: "limit < 0 \<longrightarrow>
        list_jobs s limit = take (length s - nat (- limit)) (list_jobs s (int (length s)))"
    by (simp only: list_jobs_all) (simp add: list_jobs_def slice_to_def length_sorted_reverse)
  show ?thesis using a b c e f g h i j k l by blast
qed

theorem list_jobs_order_and_length_witness:
  "distinct (map created_at (map snd
      (run_ops [] [CreateJob 1 100 100, CreateJob 2 300 300, CreateJob 3 200 200])))
   \<and> (0::int) \<le> 2
   \<and> map job_id (list_jobs
        (run_ops [] [CreateJob 1 100 100, CreateJob 2 300 300, CreateJob 3 200 200]) 3)
       = [2, 3, 1]
   \<and> map job_id (list_jobs
        (run_ops [] [CreateJob 1 100 100, CreateJob 2 300 300, CreateJob 3 200 200]) 2) = [2, 3]
   \<and> sorted_wrt (\<lambda>a b. created_at a > created_at b) (list_jobs
        (run_ops [] [CreateJob 1 100 100, CreateJob 2 300 300, CreateJob 3 200 200]) 2)
   \<and> int (length (list_jobs
        (run_ops [] [CreateJob 1 100 100, CreateJob 2 300 300, CreateJob 3 200 200]) 2)) \<le> 2
   \<and> (-1::int) < 0
   \<and> length (list_jobs
        (run_ops [] [CreateJob 1 100 100, CreateJob 2 300 300, CreateJob 3 200 200]) (-1)) = 2
   \<and> list_jobs
        (run_ops [] [CreateJob 1 100 100, CreateJob 2 300 300, CreateJob 3 200 200]) (-1)
      = list_jobs
        (run_ops [] [CreateJob 1 100 100, CreateJob 2 300 300, CreateJob 3 200 200]) 2
   \<and> map job_id (list_jobs (run_ops [] [CreateJob 1 100 100, CreateJob 2 100 100]) 2) = [1, 2]"
proof -
  let ?s = "run_ops [] [CreateJob 1 100 100, CreateJob 2 300 300, CreateJob 3 200 200]"
  have d: "distinct (map created_at (map snd ?s))"
    by (simp add: run_ops_def create_job_def Let_def)
  have w: "map job_id (list_jobs ?s 3) = [2, 3, 1]"
    by (simp add: run_ops_def create_job_def Let_def list_jobs_def sorted_reverse_def slice_to_def)
  have i: "map job_id (list_jobs ?s 2) = [2, 3]"
    by (simp add: run_ops_def create_job_def Let_def list_jobs_def sorted_reverse_def slice_to_def)
  have l: "length ?s = 3"
    by (simp add: run_ops_def create_job_def Let_def)
  have t: "map job_id (list_jobs (run_ops [] [CreateJob 1 100 100, CreateJob 2 100 100]) 2) = [1, 2]"
    by (simp add: run_ops_def create_job_def Let_def list_jobs_def sorted_reverse_def slice_to_def)
  have pos: "(0::int) \<le> 2" and neg: "(-1::int) < 0" by simp_all
  have s2: "sorted_wrt (\<lambda>a b. created_at a > created_at b) (list_jobs ?s 2)"
    using list_jobs_order_and_length [of ?s 2] d by blast
  have n2: "int (length (list_jobs ?s 2)) \<le> 2"
    using list_jobs_order_and_length [of ?s 2] pos by blast
  have p2: "list_jobs ?s 2 = take (nat 2) (list_jobs ?s (int (length ?s)))"
    using list_jobs_order_and_length [of ?s 2] pos by blast
  have m1: "length (list_jobs ?s (-1)) = length ?s - nat (- (-1))"
    using list_jobs_order_and_length [of ?s "-1"] neg by blast
  have p1: "list_jobs ?s (-1) = take (length ?s - nat (- (-1))) (list_jobs ?s (int (length ?s)))"
    using list_jobs_order_and_length [of ?s "-1"] neg by blast
  have len: "length (list_jobs ?s (-1)) = 2"
    using m1 l by simp
  have same: "list_jobs ?s (-1) = list_jobs ?s 2"
    using p1 p2 l by simp
  show ?thesis
    using d w i t pos neg s2 n2 len same by blast
qed

text \<open>
  C6 as the specification states it fails twice. Two jobs created at the same reading of
  the clock are listed one after the other, so the order is not strict; and the limit
  \<open>-1\<close> on a store of two jobs returns one job, more than the limit.
\<close>

theorem list_jobs_strict_counterexample:
  "\<not> sorted_wrt (\<lambda>a b. created_at a > created_at b)
        (list_jobs (run_ops [] [CreateJob 1 100 100, CreateJob 2 100 100]) 2)
   \<and> \<not> int (length (list_jobs (run_ops [] [CreateJob 1 100 100, CreateJob 2 100 100]) (-1))) \<le> -1"
  by (simp add: run_ops_def create_job_def Let_def list_jobs_def sorted_reverse_def slice_to_def)

section \<open>Properties of the evidence context\<close>

subsection \<open>Confidence buckets (C7)\<close>

text \<open>
  The binary64 values from \<open>1/2\<close> up are multiples of \<open>1 / 2 ^ 53\<close>; on them the
  comparison with the real number \<open>0.8\<close> and with the binary64 value of the literal
  agree.
\<close>

lemma literal_0_8_binary64:
  "(real_of_int k / 2 ^ 53 \<ge> 0.8) = (real_of_int k / 2 ^ 53 \<ge> 3602879701896397 / 2 ^ 52)"
proof -
  have a: "(real_of_int k / 2 ^ 53 \<ge> 0.8) = (real_of_int k \<ge> 0.8 * 2 ^ 53)"
    by (simp add: field_simps)
  have b: "(real_of_int k / 2 ^ 53 \<ge> 3602879701896397 / 2 ^ 52) = (real_of_int k \<ge> 7205759403792794)"
    by (simp add: field_simps)
  have c: "(real_of_int k \<ge> 0.8 * 2 ^ 53) = (k \<ge> 7205759403792794)"
  proof
    assume "real_of_int k \<ge> 0.8 * 2 ^ 53"
    then have "real_of_int k > 7205759403792793" by simp
    then have "k > 7205759403792793" by linarith
    then show "k \<ge> 7205759403792794" by simp
  next
    assume "k \<ge> 7205759403792794"
    then have "real_of_int k \<ge> 7205759403792794" by linarith
    then show "real_of_int k \<ge> 0.8 * 2 ^ 53" by simp
  qed
  have d: "(real_of_int k \<ge> 7205759403792794) = (k \<ge> 7205759403792794)" by linarith
  show ?thesis using a b c d by simp
qed

text \<open>
  C7. A confidence of at least 0.8 is labelled HIGH, one of at least 0.5 and below 0.8
  MEDIUM, one below 0.5 LOW; so 0.8 is HIGH, 0.79999 and 0.5 are MEDIUM, 0.499 and 0.0 are
  LOW. An extracted text without a confidence is labelled as one of confidence 0.7, that
  is MEDIUM.
\<close>

theorem confidence_label_buckets:
  "(c \<ge> 0.8 \<longrightarrow> confidence_label c = ''[HIGH]'')
   \<and> (0.5 \<le> c \<and> c < 0.8 \<longrightarrow> confidence_label c = ''[MEDIUM]'')
   \<and> (c < 0.5 \<longrightarrow> confidence_label c = ''[LOW]'')
   \<and> confidence_label 0.8 = ''[HIGH]''
   \<and> confidence_label 0.79999 = ''[MEDIUM]''
   \<and> confidence_label 0.5 = ''[MEDIUM]''
   \<and> confidence_label 0.499 = ''[LOW]''
   \<and> confidence_label 0.0 = ''[LOW]''
   \<and> text_label \<lparr>text_text = t, text_confidence = None\<rparr>
       = text_label \<lparr>text_text = t, text_confidence = Some 0.7\<rparr>
   \<and> text_label \<lparr>text_text = t, text_confidence = None\<rparr>
       = confidence_label 0.7 @ '' '' @ [CHR 0x22] @ t @ [CHR 0x22]
   \<and> confidence_label 0.7 = ''[MEDIUM]''"
  by (simp add: confidence_label_def text_label_def)

theorem confidence_label_buckets_witness:
  "(0.95::real) \<ge> 0.8 \<and> confidence_label 0.95 = ''[HIGH]''
   \<and> (0.5::real) \<le> 0.6 \<and> (0.6::real) < 0.8 \<and> confidence_label 0.6 = ''[MEDIUM]''
   \<and> (0.3::real) < 0.5 \<and> confidence_label 0.3 = ''[LOW]''
   \<and> text_label \<lparr>text_text = ''HELP'', text_confidence = None\<rparr> = ''[MEDIUM] '' @ [CHR 0x22] @ ''HELP'' @ [CHR 0x22]"
  using confidence_label_buckets [of "0.95" "''HELP''"] confidence_label_buckets [of "0.6" "''HELP''"]
    confidence_label_buckets [of "0.3" "''HELP''"]
  by simp

subsection \<open>Rendering of the evidence (C8)\<close>

lemma collect_evidence_eq:
  "collect_evidence images os ts =
     (os @ concat (map (\<lambda>img. map object_label (detected_objects img)) images),
      ts @ concat (map (\<lambda>img. map text_label (extracted_texts img)) images))"
  by (induction images arbitrary: os ts) simp_all

text \<open>
  C8, as the code has it. For a conversation with at least one image the context is the
  three-line block in which the objects of all images, in order, are rendered as
  \<open>[BUCKET] label\<close> and the texts as \<open>[BUCKET] "text"\<close>, joined by a comma and a
  space, and in which an empty list of objects is rendered as \<open>No objects detected\<close>
  and an empty list of texts as \<open>No text extracted\<close>. For a conversation without
  images the context is the empty string.
\<close>

theorem build_evidence_context_render:
  assumes "images \<noteq> []"
  shows "build_evidence_context images =
      ''Evidence from the scene:'' @ [CHR 0x0A] @ ''Objects detected: ''
      @ (if concat (map detected_objects images) = [] then ''No objects detected''
         else join '', '' (map object_label (concat (map detected_objects images))))
      @ [CHR 0x0A] @ ''Text found: ''
      @ (if concat (map extracted_texts images) = [] then ''No text extracted''
         else join '', '' (map text_label (concat (map extracted_texts images))))
    \<and> object_label obj = confidence_label (obj_confidence obj) @ '' '' @ obj_label obj
    \<and> text_label \<lparr>text_text = t, text_confidence = Some c\<rparr>
        = confidence_label c @ '' '' @ [CHR 0x22] @ t @ [CHR 0x22]
    \<and> build_evidence_context [] = ''''"
proof -
  have o: "concat (map (\<lambda>img. map object_label (detected_objects img)) images)
      = map object_label (concat (map detected_objects images))"
    by (simp add: map_concat comp_def)
  have t: "concat (map (\<lambda>img. map text_label (extracted_texts img)) images)
      = map text_label (concat (map extracted_texts images))"
    by (simp add: map_concat comp_def)
  have "build_evidence_context images =
      ''Evidence from the scene:'' @ [CHR 0x0A] @ ''Objects detected: ''
      @ (if concat (map detected_objects images) = [] then ''No objects detected''
         else join '', '' (map object_label (concat (map detected_objects images))))
      @ [CHR 0x0A] @ ''Text found: ''
      @ (if concat (map extracted_texts images) = [] then ''No text extracted''
         else join '', '' (map text_label (concat (map extracted_texts images))))"
    using assms
    by (simp only: build_evidence_context_def collect_evidence_eq o t Let_def
          append_Nil prod.case if_False map_is_Nil_conv if_not_P)
      (simp split: if_splits)
  then show ?thesis
    by (simp add: object_label_def text_label_def build_evidence_context_def)
qed

theorem build_evidence_context_render_witness:
  "[\<lparr>detected_objects = [], extracted_texts = []\<rparr>] \<noteq> []
   \<and> build_evidence_context [\<lparr>detected_objects = [], extracted_texts = []\<rparr>]
       = ''Evidence from the scene:'' @ [CHR 0x0A] @ ''Objects detected: No objects detected''
         @ [CHR 0x0A] @ ''Text found: No text extracted''
   \<and> build_evidence_context
        [\<lparr>detected_objects = [\<lparr>obj_label = ''knife'', obj_confidence = 0.95\<rparr>,
                               \<lparr>obj_label = ''blood'', obj_confidence = 0.6\<rparr>],
          extracted_texts = []\<rparr>,
         \<lparr>detected_objects = [\<lparr>obj_label = ''figure'', obj_confidence = 0.3\<rparr>],
          extracted_texts = [\<lparr>text_text = ''HELP'', text_confidence = None\<rparr>]\<rparr>]
       = ''Evidence from the scene:'' @ [CHR 0x0A]
         @ ''Objects detected: [HIGH] knife, [MEDIUM] blood, [LOW] figure''
         @ [CHR 0x0A] @ ''Text found: [MEDIUM] '' @ [CHR 0x22] @ ''HELP'' @ [CHR 0x22]"
proof -
  have h1: "[\<lparr>detected_objects = [], extracted_texts = []\<rparr>] \<noteq> []" by simp
  have h2: "[\<lparr>detected_objects = [\<lparr>obj_label = ''knife'', obj_confidence = 0.95\<rparr>,
                               \<lparr>obj_label = ''blood'', obj_confidence = 0.6\<rparr>],
          extracted_texts = []\<rparr>,
         \<lparr>detected_objects = [\<lparr>obj_label = ''figure'', obj_confidence = 0.3\<rparr>],
          extracted_texts = [\<lparr>text_text = ''HELP'', text_confidence = None\<rparr>]\<rparr>] \<noteq> []" by simp
  show ?thesis
    using build_evidence_context_render [OF h1] build_evidence_context_render [OF h2]
    by (simp add: object_label_def text_label_def confidence_label_def)
qed

text \<open>
  C8 as the specification states it fails for a conversation without images: the lists of
  objects and of texts are empty and the context is the empty string, with neither
  fallback in it.
\<close>

theorem build_evidence_context_no_images_counterexample:
  "concat (map detected_objects ([] :: Image list)) = []
   \<and> concat (map extracted_texts ([] :: Image list)) = []
   \<and> build_evidence_context [] = []"
  by (simp add: build_evidence_context_def)

section \<open>Properties of the pipeline runs\<close>

subsection \<open>Sequencing\<close>

lemma fst_emit: "fst (emit x) = [x]" and snd_emit: "snd (emit x) = Inr ()"
  by (simp_all add: emit_def)

lemma fst_call: "fst (call c) = []" and snd_call: "snd (call c) = c"
  by (simp_all add: call_def)

lemma fst_and_then:
  "fst (and_then m f) = (case snd m of Inl ex \<Rightarrow> fst m | Inr a \<Rightarrow> fst m @ fst (f a))"
  by (cases m) (simp add: and_then_def split: sum.splits prod.splits)

lemma snd_and_then:
  "snd (and_then m f) = (case snd m of Inl ex \<Rightarrow> Inl ex | Inr a \<Rightarrow> snd (f a))"
  by (cases m) (simp add: and_then_def split: sum.splits prod.splits)

lemma fst_try_except:
  "fst (try_except m h) =
     (case snd m of
        Inl (Exception msg) \<Rightarrow> fst m @ fst (h msg)
      | Inl (BaseException name) \<Rightarrow> fst m
      | Inr a \<Rightarrow> fst m)"
  by (cases m) (simp add: try_except_def split: sum.splits prod.splits exn.splits)

lemma snd_try_except:
  "snd (try_except m h) =
     (case snd m of
        Inl (Exception msg) \<Rightarrow> snd (h msg)
      | Inl (BaseException name) \<Rightarrow> Inl (BaseException name)
      | Inr a \<Rightarrow> Inr a)"
  by (cases m) (simp add: try_except_def split: sum.splits prod.splits exn.splits)

lemmas run_simps = fst_emit snd_emit fst_call snd_call fst_and_then snd_and_then
  fst_try_except snd_try_except

subsection \<open>The text events and the hypothesis (C2)\<close>

lemma text_payloads_append: "text_payloads (xs @ ys) = text_payloads xs @ text_payloads ys"
  by (induction xs rule: text_payloads.induct) simp_all

lemma progress_no_text: "list_all is_progress evs \<Longrightarrow> text_payloads evs = []"
  by (induction evs rule: text_payloads.induct) simp_all


lemma basic_image_loop_progress:
  "list_all is_progress (fst (basic_image_loop idx total_images images os ts))"
  by (induction images arbitrary: idx os ts) (simp_all add: run_simps split: sum.splits)

lemma premium_image_loop_progress:
  "list_all is_progress (fst (premium_image_loop idx total_images images urls))"
  by (induction images arbitrary: idx urls) (simp_all add: run_simps split: sum.splits)

lemma fst_token_loop: "fst (token_loop tokens fin acc) = map Text tokens"
  by (induction tokens fin acc rule: token_loop.induct) (simp_all add: run_simps)

lemma snd_token_loop:
  "snd (token_loop tokens fin acc) = (case fin of None \<Rightarrow> Inr (acc @ concat tokens) | Some ex \<Rightarrow> Inl ex)"
  by (induction tokens fin acc rule: token_loop.induct) (simp_all add: run_simps split: option.splits)

lemma text_payloads_map_Text: "text_payloads (map Text tokens) = tokens"
  by (induction tokens) simp_all

lemma stream_body_text:
  assumes "Complete message_id hypothesis \<in> set (fst (stream_body context use_basic_pipeline e))"
  shows "hypothesis = strip (concat (text_payloads (fst (stream_body context use_basic_pipeline e))))"
proof -
  have np: "\<And>evs. list_all is_progress evs \<Longrightarrow> Complete message_id hypothesis \<notin> set evs"
    by (auto simp add: list_all_iff)
  show ?thesis
    using assms np [OF basic_image_loop_progress] np [OF premium_image_loop_progress]
    by (auto simp add: stream_body_def run_simps text_payloads_append fst_token_loop
          snd_token_loop text_payloads_map_Text progress_no_text [OF basic_image_loop_progress]
          progress_no_text [OF premium_image_loop_progress]
        split: sum.splits prod.splits if_splits option.splits)
qed

text \<open>
  C2. In a run of the stream that yields a \<^verbatim>\<open>complete\<close> event, basic or premium,
  the \<^verbatim>\<open>text\<close> payloads concatenated in the order of their emission and stripped
  are the \<^verbatim>\<open>hypothesis\<close> of that event.
\<close>

theorem stream_text_concat:
  assumes "Complete message_id hypothesis
             \<in> set (fst (analyze_stream_generator context use_basic_pipeline e))"
  shows "strip (concat (text_payloads (fst (analyze_stream_generator context use_basic_pipeline e))))
           = hypothesis"
proof -
  let ?body = "stream_body context use_basic_pipeline e"
  have c: "Complete message_id hypothesis \<in> set (fst ?body)"
    using assms
    by (auto simp add: analyze_stream_generator_def run_simps split: sum.splits exn.splits)
  have "text_payloads (fst (analyze_stream_generator context use_basic_pipeline e))
          = text_payloads (fst ?body)"
    by (simp add: analyze_stream_generator_def run_simps text_payloads_append
          split: sum.splits exn.splits)
  then show ?thesis
    using stream_body_text [OF c] by simp
qed

subsection \<open>Every run ends with one terminal output\<close>

lemma ends_with_and_then:
  assumes "list_all N (fst m)" and "\<And>a. snd m = Inr a \<Longrightarrow> ends_with N T (f a)"
  shows "ends_with N T (and_then m f)"
proof (cases "snd m")
  case (Inl ex)
  then show ?thesis using assms(1) by (simp add: ends_with_def run_simps)
next
  case (Inr a)
  have fa: "ends_with N T (f a)" using assms(2) Inr by simp
  show ?thesis
  proof (cases "snd (f a)")
    case (Inl ex)
    then show ?thesis using Inr fa assms(1) by (simp add: ends_with_def run_simps)
  next
    case (Inr b)
    then have "fst (f a) \<noteq> []" using fa by (simp add: ends_with_def)
    then show ?thesis
      using Inr \<open>snd m = Inr a\<close> fa assms(1)
      by (simp add: ends_with_def run_simps butlast_append)
  qed
qed

lemma ends_with_emit: "T x \<Longrightarrow> ends_with N T (emit x)"
  by (simp add: ends_with_def run_simps)

lemma list_all_butlast: "list_all P xs \<Longrightarrow> list_all P (butlast xs)"
  by (auto simp add: list_all_iff dest: in_set_butlastD)

lemma ends_with_try_except:
  fixes m :: "('o, unit) run"
  assumes "ends_with N T m" and "\<And>msg. T (h msg)"
  shows "list_all N (butlast (fst (try_except m (\<lambda>msg. emit (h msg)))))
     \<and> (\<forall>msg. snd (try_except m (\<lambda>msg. emit (h msg))) \<noteq> Inl (Exception msg))
     \<and> (snd (try_except m (\<lambda>msg. emit (h msg))) = Inr () \<longrightarrow>
          fst (try_except m (\<lambda>msg. emit (h msg))) \<noteq> []
          \<and> T (last (fst (try_except m (\<lambda>msg. emit (h msg))))))
     \<and> (\<forall>name. snd (try_except m (\<lambda>msg. emit (h msg))) = Inl (BaseException name) \<longrightarrow>
          list_all N (fst (try_except m (\<lambda>msg. emit (h msg)))))"
proof (cases "snd m")
  case (Inl x)
  then have n: "list_all N (fst m)" using assms(1) by (simp add: ends_with_def)
  show ?thesis
  proof (cases x)
    case (Exception msg)
    then show ?thesis using Inl n assms(2) by (simp add: run_simps)
  next
    case (BaseException name)
    then show ?thesis using Inl n list_all_butlast [OF n] by (simp add: run_simps)
  qed
next
  case (Inr a)
  then show ?thesis using assms(1) by (simp add: ends_with_def run_simps)
qed

lemma job_image_loop_no_outcome:
  "list_all sets_no_outcome (fst (job_image_loop idx total_images images os ts))"
  by (induction images arbitrary: idx os ts)
     (simp_all add: run_simps sets_no_outcome_def job_image_progress_def split: sum.splits)

lemma job_body_shape:
  "ends_with sets_no_outcome sets_outcome (job_body conversation_id context e)"
  unfolding job_body_def
  by (intro ends_with_and_then ends_with_emit)
     (auto simp add: run_simps sets_no_outcome_def sets_outcome_def job_failed_def
        job_image_loop_no_outcome intro!: ends_with_and_then ends_with_emit split: prod.splits)


subsection \<open>What a trace does to the outcome of one job\<close>

lemma get_job_create:
  "get_job (fst (create_job s i t1 t2)) jid =
     (if i = jid then Some (snd (create_job s i t1 t2)) else get_job s jid)"
  by (simp add: create_job_def get_job_def Let_def update_conv')

lemma outcome_created: "job_outcome (snd (create_job s i t1 t2)) = (PENDING, None, None)"
  by (simp add: create_job_def job_outcome_def Let_def)

lemma get_job_delete:
  "get_job (fst (delete_job s i)) jid = (if i = jid then None else get_job s jid)"
  by (auto simp add: delete_job_def get_job_def delete_conv')

lemma outcome_update:
  "map_option job_outcome (get_job (fst (update_job s now jid st cs pr rs er)) jid) =
     replay (map_option job_outcome (get_job s jid))
       (Updated \<lparr>arg_status = st, arg_current_step = cs, arg_progress = pr,
                 arg_result = rs, arg_error = er\<rparr>)"
proof (cases "map_of s jid")
  case None
  then show ?thesis by (simp add: update_job_absent get_job_def)
next
  case (Some job)
  obtain job' where j: "snd (update_job s now jid st cs pr rs er) = Some job'"
      "status job' = (case st of None \<Rightarrow> status job | Some v \<Rightarrow> v)"
      "result job' = (case rs of None \<Rightarrow> result job | Some v \<Rightarrow> Some v)"
      "error job' = (case er of None \<Rightarrow> error job | Some v \<Rightarrow> Some v)"
    using update_job_fields [OF Some, of now st cs pr rs er] by blast
  have "get_job (fst (update_job s now jid st cs pr rs er)) jid = Some job'"
    using update_job_stored [OF Some, of now st cs pr rs er] j(1) by (simp add: get_job_def)
  then show ?thesis using j Some by (simp add: get_job_def job_outcome_def)
qed

lemma outcome_apply_op:
  "map_option job_outcome (get_job (apply_op s op) jid) =
     (case call_on jid op of
        None \<Rightarrow> map_option job_outcome (get_job s jid)
      | Some c \<Rightarrow> replay (map_option job_outcome (get_job s jid)) c)"
proof (cases op)
  case (CreateJob i t1 t2)
  then show ?thesis by (simp add: get_job_create outcome_created)
next
  case (UpdateJob now i st cs pr rs er)
  then show ?thesis
    by (simp add: outcome_update) (simp add: get_job_def update_job_other)
next
  case (DeleteJob i)
  then show ?thesis by (simp add: get_job_delete)
qed

lemma calls_on_append: "calls_on jid (xs @ ys) = calls_on jid xs @ calls_on jid ys"
  by (induction xs) (simp_all split: option.splits)

lemma outcome_run_ops:
  "map_option job_outcome (get_job (run_ops s ops) jid) =
     foldl replay (map_option job_outcome (get_job s jid)) (calls_on jid ops)"
proof (induction ops arbitrary: s)
  case Nil
  then show ?case by (simp add: run_ops_def)
next
  case (Cons op ops)
  have "run_ops s (op # ops) = run_ops (apply_op s op) ops" by (simp add: run_ops_def)
  then show ?case
    using Cons.IH [of "apply_op s op"]
    by (simp add: outcome_apply_op split: option.splits)
qed

lemma replay_no_outcome:
  "list_all sets_no_outcome us \<Longrightarrow>
   \<exists>st'. foldl replay (Some (st, rs, er)) (map Updated us) = Some (st', rs, er)"
  by (induction us arbitrary: st) (auto simp add: sets_no_outcome_def)


lemma replay_outcome:
  "sets_outcome u \<Longrightarrow>
   \<exists>rs er. replay (Some (st, None, None)) (Updated u) = Some (the (arg_status u), rs, er)
     \<and> rs = arg_result u \<and> er = arg_error u
     \<and> (rs \<noteq> None \<longrightarrow> arg_status u = Some COMPLETED \<and> er = None)
     \<and> (er \<noteq> None \<longrightarrow> arg_status u = Some FAILED \<and> rs = None)"
  by (auto simp add: sets_outcome_def split: option.splits)

subsection \<open>The outcome of a job is set once (C1)\<close>

lemma run_analysis_job_shape:
  "(\<exists>pre fin. fst (run_analysis_job conversation_id context e) = pre @ [fin]
       \<and> list_all sets_no_outcome pre \<and> sets_outcome fin)
   \<or> list_all sets_no_outcome (fst (run_analysis_job conversation_id context e))"
proof -
  let ?r = "run_analysis_job conversation_id context e"
  have t: "\<And>msg. sets_outcome (job_failed msg)"
    by (simp add: sets_outcome_def job_failed_def)
  have sh: "list_all sets_no_outcome (butlast (fst ?r))
      \<and> (\<forall>msg. snd ?r \<noteq> Inl (Exception msg))
      \<and> (snd ?r = Inr () \<longrightarrow> fst ?r \<noteq> [] \<and> sets_outcome (last (fst ?r)))
      \<and> (\<forall>name. snd ?r = Inl (BaseException name) \<longrightarrow> list_all sets_no_outcome (fst ?r))"
    unfolding run_analysis_job_def
    using ends_with_try_except [OF job_body_shape, of job_failed, OF t] by simp
  show ?thesis
  proof (cases "snd ?r")
    case (Inr u)
    then have "fst ?r = butlast (fst ?r) @ [last (fst ?r)] \<and> sets_outcome (last (fst ?r))"
      using sh by simp
    then show ?thesis using sh by blast
  next
    case (Inl x)
    then show ?thesis using sh by (cases x) auto
  qed
qed

lemma prefix_of_updates:
  assumes "a @ b = Created # map Updated us"
  shows "a = [] \<or> (\<exists>k. a = Created # map Updated (take k us))"
proof (cases a)
  case Nil
  then show ?thesis by simp
next
  case (Cons c a')
  then have c: "c = Created" and r: "a' @ b = map Updated us" using assms by simp_all
  have "a' = take (length a') (a' @ b)" by simp
  then have "a' = map Updated (take (length a') us)" using r by (simp add: take_map)
  then show ?thesis using Cons c by blast
qed

lemma prefix_of_run:
  assumes "a @ b = Created # map Updated (pre @ [fin])"
  shows "a = [] \<or> (\<exists>k. a = Created # map Updated (take k pre))
     \<or> (a = Created # map Updated (pre @ [fin]) \<and> b = [])"
proof (cases b rule: rev_cases)
  case Nil
  then show ?thesis using assms by simp
next
  case (snoc b' x)
  then have "a @ b' = Created # map Updated pre" using assms by simp
  then show ?thesis using prefix_of_updates by blast
qed

lemma prefix_no_outcome:
  assumes "list_all sets_no_outcome us"
      and "foldl replay None (Created # map Updated (take k us)) = Some (job_outcome job)"
  shows "result job = None \<and> error job = None"
proof -
  have "list_all sets_no_outcome (take k us)"
    using assms(1) by (auto simp add: list_all_iff dest: in_set_takeD)
  then obtain st' where "foldl replay (Some (PENDING, None, None)) (map Updated (take k us))
      = Some (st', None, None)"
    using replay_no_outcome by blast
  then have "job_outcome job = (st', None, None)"
    using assms(2) by simp
  then show ?thesis by (simp add: job_outcome_def)
qed

text \<open>
  C1. Take any sequence of store operations, from the empty store, in which the operations
  on one job id are the creation of the job followed by the update calls of its run, with
  operations on other ids anywhere between them. At every point of the sequence at which the
  job exists, its \<^verbatim>\<open>result\<close> and \<^verbatim>\<open>error\<close> are not both set, a result
  comes with the status \<^verbatim>\<open>COMPLETED\<close> and an error with the status
  \<^verbatim>\<open>FAILED\<close>; and once one of them is set, the job has the same status, result and
  error at every later point.
\<close>

theorem job_outcome_set_once:
  assumes run: "calls_on jid ops = Created # map Updated (fst (run_analysis_job conversation_id context e))"
      and split: "ops = p @ q @ r"
      and job: "get_job (run_ops [] p) jid = Some job"
  shows "\<not> (result job \<noteq> None \<and> error job \<noteq> None)
     \<and> (result job \<noteq> None \<longrightarrow> status job = COMPLETED)
     \<and> (error job \<noteq> None \<longrightarrow> status job = FAILED)
     \<and> (result job \<noteq> None \<or> error job \<noteq> None \<longrightarrow>
          (\<exists>job'. get_job (run_ops [] (p @ q)) jid = Some job'
             \<and> status job' = status job \<and> result job' = result job \<and> error job' = error job))"
proof -
  let ?a = "calls_on jid p"
  let ?us = "fst (run_analysis_job conversation_id context e)"
  have ab: "?a @ (calls_on jid q @ calls_on jid r) = Created # map Updated ?us"
    using run split by (simp add: calls_on_append)
  have vp: "foldl replay None ?a = Some (job_outcome job)"
    using outcome_run_ops [of "[]" p jid] job by (simp add: get_job_def)
  consider (ended) pre fin where "?us = pre @ [fin]" "list_all sets_no_outcome pre"
        "sets_outcome fin"
    | (escaped) "list_all sets_no_outcome ?us"
    using run_analysis_job_shape by blast
  then show ?thesis
  proof cases
    case escaped
    have "?a = [] \<or> (\<exists>k. ?a = Created # map Updated (take k ?us))"
      using prefix_of_updates [OF ab] .
    then have "result job = None \<and> error job = None"
      using vp prefix_no_outcome [OF escaped] by auto
    then show ?thesis by simp
  next
    case ended
    have ab': "?a @ (calls_on jid q @ calls_on jid r) = Created # map Updated (pre @ [fin])"
      using ab ended(1) by simp
    consider (empty) "?a = []"
      | (running) k where "?a = Created # map Updated (take k pre)"
      | (finished) "?a = Created # map Updated (pre @ [fin])"
          "calls_on jid q @ calls_on jid r = []"
      using prefix_of_run [OF ab'] by blast
    then show ?thesis
    proof cases
      case empty
      then show ?thesis using vp by simp
    next
      case running
      then have "result job = None \<and> error job = None"
        using vp prefix_no_outcome [OF ended(2)] by auto
      then show ?thesis by simp
    next
      case finished
      obtain st' where pre: "foldl replay (Some (PENDING, None, None)) (map Updated pre)
          = Some (st', None, None)"
        using replay_no_outcome [OF ended(2)] by blast
      obtain rs er where fin: "replay (Some (st', None, None)) (Updated fin) = Some (the (arg_status fin), rs, er)"
          "rs \<noteq> None \<longrightarrow> arg_status fin = Some COMPLETED \<and> er = None"
          "er \<noteq> None \<longrightarrow> arg_status fin = Some FAILED \<and> rs = None"
        using replay_outcome [OF ended(3), of st'] by blast
      have "foldl replay None ?a = Some (the (arg_status fin), rs, er)"
        using finished(1) pre fin(1) by simp
      then have o: "job_outcome job = (the (arg_status fin), rs, er)" using vp by simp
      have q: "calls_on jid q = []" using finished(2) by simp
      have "map_option job_outcome (get_job (run_ops [] (p @ q)) jid) = foldl replay None (?a @ calls_on jid q)"
        using outcome_run_ops [of "[]" "p @ q" jid] by (simp add: get_job_def calls_on_append)
      then have "map_option job_outcome (get_job (run_ops [] (p @ q)) jid) = Some (job_outcome job)"
        using q vp by simp
      then obtain job' where j': "get_job (run_ops [] (p @ q)) jid = Some job'"
          "job_outcome job' = job_outcome job"
        by auto
      have same: "status job' = status job \<and> result job' = result job \<and> error job' = error job"
        using j'(2) by (simp add: job_outcome_def)
      show ?thesis
        using o fin(2,3) j'(1) same by (auto simp add: job_outcome_def)
    qed
  qed
qed

subsection \<open>Failures (C3)\<close>






















subsection \<open>The example runs\<close>

theorem stream_text_concat_witness:
  "Complete ''m1'' ''A break-in.'' \<in> set (fst (analyze_stream_generator None True env_ok))
   \<and> text_payloads (fst (analyze_stream_generator None True env_ok))
       = ['' A'', '' break'', ''-in. '']
   \<and> strip (concat (text_payloads (fst (analyze_stream_generator None True env_ok))))
       = ''A break-in.''
   \<and> Complete ''m1'' ''Forced entry.'' \<in> set (fst (analyze_stream_generator None False env_ok))
   \<and> strip (concat (text_payloads (fst (analyze_stream_generator None False env_ok))))
       = ''Forced entry.''"
proof -
  have b: "fst (analyze_stream_generator None True env_ok)
     = [Start 1, Progress ''detection'' (Some 1) (Some 1), Progress ''ocr'' (Some 1) (Some 1),
        Progress ''nlp'' None None, Text '' A'', Text '' break'', Text ''-in. '',
        Complete ''m1'' ''A break-in.'']"
    by (simp add: analyze_stream_generator_def stream_body_def run_simps env_ok_def image_ok_def
          strip_def isspace_def)
  have p: "fst (analyze_stream_generator None False env_ok)
     = [Start 1, Progress ''processing'' (Some 1) (Some 1),
        Progress ''nlp'' None None, Text ''Forced '', Text ''entry.'', Text [CHR 0x0A],
        Complete ''m1'' ''Forced entry.'']"
    by (simp add: analyze_stream_generator_def stream_body_def run_simps env_ok_def image_ok_def
          strip_def isspace_def)
  have hb: "Complete ''m1'' ''A break-in.'' \<in> set (fst (analyze_stream_generator None True env_ok))"
    by (simp add: b)
  have hp: "Complete ''m1'' ''Forced entry.'' \<in> set (fst (analyze_stream_generator None False env_ok))"
    by (simp add: p)
  have t: "text_payloads (fst (analyze_stream_generator None True env_ok))
       = ['' A'', '' break'', ''-in. '']"
    by (simp add: b)
  show ?thesis
    using hb hp t stream_text_concat [OF hb] stream_text_concat [OF hp] by simp
qed

lemmas store_defs = run_ops_def create_job_def update_job_def delete_job_def get_job_def Let_def

lemmas job_defs = run_analysis_job_def job_body_def run_simps job_image_progress_def
  job_failed_def

theorem job_outcome_set_once_witness:
  "calls_on 7 (trace_completed @ trace_later @ [])
     = Created # map Updated (fst (run_analysis_job ''c1'' None env_ok))
   \<and> (\<exists>job. get_job (run_ops [] trace_completed) 7 = Some job
        \<and> status job = COMPLETED \<and> result job \<noteq> None \<and> error job = None
        \<and> (\<exists>job'. get_job (run_ops [] (trace_completed @ trace_later)) 7 = Some job'
              \<and> status job' = COMPLETED \<and> result job' = result job \<and> error job' = None))
   \<and> calls_on 7 (trace_not_found @ trace_later @ [])
     = Created # map Updated (fst (run_analysis_job ''c1'' None env_not_found))
   \<and> (\<exists>job. get_job (run_ops [] trace_not_found) 7 = Some job
        \<and> status job = FAILED \<and> result job = None \<and> error job \<noteq> None
        \<and> (\<exists>job'. get_job (run_ops [] (trace_not_found @ trace_later)) 7 = Some job'
              \<and> status job' = FAILED \<and> result job' = None \<and> error job' = error job))"
proof -
  have c1: "calls_on 7 (trace_completed @ trace_later @ [])
     = Created # map Updated (fst (run_analysis_job ''c1'' None env_ok))"
    by (simp add: trace_completed_def trace_later_def job_defs env_ok_def image_ok_def)
  have c2: "calls_on 7 (trace_not_found @ trace_later @ [])
     = Created # map Updated (fst (run_analysis_job ''c1'' None env_not_found))"
    by (simp add: trace_not_found_def trace_later_def job_defs env_not_found_def env_ok_def
          image_ok_def)
  obtain job1 where j1: "get_job (run_ops [] trace_completed) 7 = Some job1"
      "result job1 \<noteq> None"
    by (simp add: trace_completed_def store_defs)
  obtain job2 where j2: "get_job (run_ops [] trace_not_found) 7 = Some job2"
      "error job2 \<noteq> None"
    by (simp add: trace_not_found_def store_defs)
  show ?thesis
    using c1 c2 j1 j2 job_outcome_set_once [OF c1 refl j1(1)] job_outcome_set_once [OF c2 refl j2(1)]
    by auto
qed





end
